theory Spec2Isabelle
  imports Main "HOL-Library.Word" "HOL-Library.Sublist"
begin

section \<open>Strings of the frontend\<close>

text \<open>
  The frontend is TypeScript: a string is a sequence of 16-bit code units, and
  \<^verbatim>\<open>length\<close>, \<^verbatim>\<open>split\<close> and the regular expressions (without the
  \<^verbatim>\<open>u\<close> flag) all work on code units. An ASCII literal of the source is written
  \<open>ascii ''...''\<close>; other literals are written as their code units.
\<close>

type_synonym jschar = "16 word"
type_synonym jsstring = "jschar list"

definition ascii :: "string \<Rightarrow> jsstring" where
  "ascii s = map of_char s"

definition colon :: jschar where "colon = 0x3A"
definition dot :: jschar where "dot = 0x2E"
definition backslash :: jschar where "backslash = 0x5C"

text \<open>What the source can throw: a property read on \<^verbatim>\<open>undefined\<close>, and a failed
  HTTP request (axios rejects on a network error and on a non-2xx status).\<close>

datatype js_error = TypeError | AxiosError

text \<open>\<^verbatim>\<open>xs[i]\<close> on an array: \<^verbatim>\<open>undefined\<close> (here \<open>None\<close>) out of range.\<close>

fun index :: "'a list \<Rightarrow> nat \<Rightarrow> 'a option" where
  "index [] i = None"
| "index (x # xs) 0 = Some x"
| "index (x # xs) (Suc i) = index xs i"

text \<open>A value interpolated in a template literal: \<^verbatim>\<open>undefined\<close> prints as the
  word.\<close>

fun template :: "jsstring option \<Rightarrow> jsstring" where
  "template None = ascii ''undefined''"
| "template (Some s) = s"

text \<open>\<^verbatim>\<open>s.split(sep)\<close> for a separator of one code unit: the pieces between the
  separators, always at least one piece.\<close>

fun split :: "jschar \<Rightarrow> jsstring \<Rightarrow> jsstring list" where
  "split sep [] = [] # []"
| "split sep (c # cs) =
     (if c = sep then [] # split sep cs
      else (case split sep cs of
              [] \<Rightarrow> [c] # []
            | p # ps \<Rightarrow> (c # p) # ps))"

section \<open>ResultItem.vue: formatTime\<close>

text \<open>
  \<^verbatim>\<open>
  const formatTime = (timeStr: string): string => {
    const parts = timeStr.split(':')
    if (parts.length >= 2) {
      return `${parts[1]}:${parts[2].split('.')[0]}`
    }
    return timeStr
  }
  \<close>
  \<^verbatim>\<open>parts[2].split\<close> on an absent third field is a TypeError.
\<close>

definition formatTime :: "jsstring \<Rightarrow> js_error + jsstring" where
  "formatTime timeStr =
     (let parts = split colon timeStr in
      if 2 \<le> length parts then
        (case index parts 2 of
           None \<Rightarrow> Inl TypeError
         | Some p2 \<Rightarrow> Inr (template (index parts 1) @ ascii '':'' @ template (index (split dot p2) 0)))
      else Inr timeStr)"

section \<open>Regular expressions of the frontend\<close>

text \<open>
  The source builds one regular expression at run time, from the user's query, and
  writes two as literals. The pattern language read here is the part of the ECMAScript
  grammar these three use: pattern characters, identity escapes of syntax characters
  and of \<open>/\<close>, a leading \<open>^\<close>, and one capture group around the whole body. A
  pattern outside this part is \<open>None\<close>: its behaviour is not described.
\<close>

definition syntax_characters :: jsstring where
  "syntax_characters = ascii ''.*+?^${}()|[]'' @ [backslash]"

text \<open>
  \<^verbatim>\<open>
  const escapeRegExp = (str: string): string => {
    return str.replace(/[.*+?^${}()|[\]\\]/g, '\\$&')
  }
  \<close>
  The class holds exactly the fourteen syntax characters; every code unit in it is
  replaced by a backslash and itself.
\<close>

definition escapeRegExp :: "jsstring \<Rightarrow> jsstring" where
  "escapeRegExp str =
     concat (map (\<lambda>c. if c \<in> set syntax_characters then [backslash, c] else [c]) str)"

datatype token = Chr jschar | Caret | Open | Close

fun tokens :: "jsstring \<Rightarrow> token list option" where
  "tokens [] = Some []"
| "tokens (c # cs) =
     (if c = backslash then
        (case cs of
           [] \<Rightarrow> None
         | d # ds \<Rightarrow>
             if d \<in> set syntax_characters \<or> d = 0x2F
             then map_option ((#) (Chr d)) (tokens ds) else None)
      else if c = 0x5E then map_option ((#) Caret) (tokens cs)
      else if c = 0x28 then map_option ((#) Open) (tokens cs)
      else if c = 0x29 then map_option ((#) Close) (tokens cs)
      else if c \<in> set syntax_characters then None
      else map_option ((#) (Chr c)) (tokens cs))"

fun literal :: "token list \<Rightarrow> jsstring option" where
  "literal [] = Some []"
| "literal (Chr c # ts) = map_option ((#) c) (literal ts)"
| "literal (_ # ts) = None"

record regexp =
  anchored :: bool
  atoms :: jsstring
  grouped :: bool
  global :: bool
  ignoreCase :: bool

text \<open>\<^verbatim>\<open>new RegExp(pattern, flags)\<close>, and a literal \<^verbatim>\<open>/pattern/flags\<close>.\<close>

definition RegExp :: "jsstring \<Rightarrow> jsstring \<Rightarrow> regexp option" where
  "RegExp pattern flags =
     (if \<not> distinct flags \<or> \<not> set flags \<subseteq> set (ascii ''gi'') then None
      else case tokens pattern of
        None \<Rightarrow> None
      | Some ts \<Rightarrow>
          let a = (ts \<noteq> [] \<and> hd ts = Caret);
              body = (if a then tl ts else ts);
              g = (body \<noteq> [] \<and> hd body = Open)
          in if g \<and> last body \<noteq> Close then None
             else map_option
               (\<lambda>lit. \<lparr>anchored = a, atoms = lit, grouped = g,
                      global = (0x67 \<in> set flags), ignoreCase = (0x69 \<in> set flags)\<rparr>)
               (literal (if g then butlast (tl body) else body)))"

text \<open>The atoms against the subject at the current position; \<open>cmp\<close> is Canonicalize
  under the \<open>i\<close> flag and the identity without it.\<close>

fun matches_here :: "(jschar \<Rightarrow> jschar) \<Rightarrow> jsstring \<Rightarrow> jsstring \<Rightarrow> bool" where
  "matches_here cmp [] s = True"
| "matches_here cmp (p # ps) [] = False"
| "matches_here cmp (p # ps) (c # cs) = (cmp p = cmp c \<and> matches_here cmp ps cs)"

text \<open>
  The loop of \<^verbatim>\<open>String.prototype.replace\<close> over the rest \<open>s\<close> of the subject
  (\<open>start\<close>: \<open>s\<close> is the whole subject). A match is replaced by \<open>sub\<close> of the matched
  text; a global expression goes on after the match (one code unit further after an
  empty match), any other copies the rest.
\<close>

function scan :: "(jschar \<Rightarrow> jschar) \<Rightarrow> regexp \<Rightarrow> (jsstring \<Rightarrow> jsstring) \<Rightarrow> bool \<Rightarrow> jsstring \<Rightarrow> jsstring" where
  "scan cmp re sub start s =
     (if (anchored re \<longrightarrow> start) \<and> matches_here cmp (atoms re) s then
        sub (take (length (atoms re)) s) @
          (if global re then
             (if atoms re = [] then (case s of [] \<Rightarrow> [] | c # cs \<Rightarrow> c # scan cmp re sub False cs)
              else scan cmp re sub False (drop (length (atoms re)) s))
           else drop (length (atoms re)) s)
      else (case s of [] \<Rightarrow> [] | c # cs \<Rightarrow> c # scan cmp re sub False cs))"
  by pat_completeness auto
termination
proof (relation "measure (\<lambda>(cmp, re, sub, start, s). length s)")
  show "wf (measure (\<lambda>(cmp, re, sub, start, s). length s))" by simp
next
  fix cmp :: "jschar \<Rightarrow> jschar" and re :: regexp and sub :: "jsstring \<Rightarrow> jsstring"
    and start :: bool and s :: jsstring
  assume "(anchored re \<longrightarrow> start) \<and> matches_here cmp (atoms re) s" "global re" "atoms re \<noteq> []"
  then have "s \<noteq> []" by (cases "atoms re"; cases s) auto
  with \<open>atoms re \<noteq> []\<close>
  show "((cmp, re, sub, False, drop (length (atoms re)) s), (cmp, re, sub, start, s))
       \<in> measure (\<lambda>(cmp, re, sub, start, s). length s)" by simp
qed auto

text \<open>
  The replacement template: \<^verbatim>\<open>$$\<close> is a dollar sign, \<^verbatim>\<open>$&\<close> the matched text,
  \<^verbatim>\<open>$1\<close> the first capture (here the whole match) when the expression has a
  group. The other forms of the language (\<^verbatim>\<open>$`\<close>, \<^verbatim>\<open>$'\<close>, \<^verbatim>\<open>$<\<close>, other
  digits) are \<open>None\<close>.
\<close>

datatype piece = Text jschar | Matched

fun pieces :: "bool \<Rightarrow> jsstring \<Rightarrow> piece list option" where
  "pieces grp (c # d # r) =
     (if c = 0x24 then
        (if d = 0x24 then map_option ((#) (Text 0x24)) (pieces grp r)
         else if d = 0x26 then map_option ((#) Matched) (pieces grp r)
         else if d = 0x31 \<and> grp then map_option ((#) Matched) (pieces grp r)
         else if d \<in> set (ascii ''`<0123456789'') \<or> d = 0x27 then None
         else map_option ((#) (Text c)) (pieces grp (d # r)))
      else map_option ((#) (Text c)) (pieces grp (d # r)))"
| "pieces grp cs = Some (map Text cs)"

fun expand :: "jsstring \<Rightarrow> piece list \<Rightarrow> jsstring" where
  "expand m [] = []"
| "expand m (Text c # ps) = c # expand m ps"
| "expand m (Matched # ps) = m @ expand m ps"

text \<open>\<^verbatim>\<open>s.replace(re, replacement)\<close>; \<open>canon\<close> is the engine's Canonicalize (the
  case folding of one code unit), which the source does not define.\<close>

definition replace :: "(jschar \<Rightarrow> jschar) \<Rightarrow> regexp \<Rightarrow> jsstring \<Rightarrow> jsstring \<Rightarrow> jsstring option" where
  "replace canon re replacement s =
     map_option (\<lambda>ps. scan (if ignoreCase re then canon else (\<lambda>c. c)) re (\<lambda>m. expand m ps) True s)
       (pieces (grouped re) replacement)"

text \<open>Canonicalize on ASCII, where it is upper-casing; used to run examples.\<close>

definition canonicalize_ascii :: "jschar \<Rightarrow> jschar" where
  "canonicalize_ascii c = (if 0x61 \<le> c \<and> c \<le> 0x7A then c - 0x20 else c)"

section \<open>ResultItem.vue: highlightText\<close>

text \<open>
  \<^verbatim>\<open>
  const highlightText = (text: string, query: string): string => {
    if (!text || !query) return text
    const regex = new RegExp(`(${escapeRegExp(query)})`, 'gi')
    return text.replace(regex, '<span class="highlight">$1</span>')
  }
  \<close>
\<close>

definition highlightText :: "(jschar \<Rightarrow> jschar) \<Rightarrow> jsstring \<Rightarrow> jsstring \<Rightarrow> jsstring option" where
  \<open>highlightText canon text query =
     (if text = [] \<or> query = [] then Some text
      else case RegExp (ascii ''('' @ escapeRegExp query @ ascii '')'') (ascii ''gi'') of
        None \<Rightarrow> None
      | Some regex \<Rightarrow> replace canon regex (ascii ''<span class="highlight">$1</span>'') text)\<close>

subsection \<open>What the claims about highlightText speak of\<close>

text \<open>Two strings equal up to case; an occurrence of \<open>q\<close> in \<open>text\<close> at offset \<open>i\<close>;
  a text cut into segments, some of them wrapped in the marker.\<close>

definition ci_equal :: "(jschar \<Rightarrow> jschar) \<Rightarrow> jsstring \<Rightarrow> jsstring \<Rightarrow> bool" where
  "ci_equal canon a b = (map canon a = map canon b)"

definition occurs_at :: "(jschar \<Rightarrow> jschar) \<Rightarrow> jsstring \<Rightarrow> jsstring \<Rightarrow> nat \<Rightarrow> bool" where
  "occurs_at canon q text i =
     (i + length q \<le> length text \<and> ci_equal canon (take (length q) (drop i text)) q)"

definition wrapped :: "jsstring \<Rightarrow> jsstring" where
  \<open>wrapped u = ascii ''<span class="highlight">'' @ u @ ascii ''</span>''\<close>

definition marked :: "(bool \<times> jsstring) list \<Rightarrow> jsstring" where
  "marked segs = concat (map (\<lambda>(w, u). if w then wrapped u else u) segs)"

definition unmarked :: "(bool \<times> jsstring) list \<Rightarrow> jsstring" where
  "unmarked segs = concat (map snd segs)"

section \<open>vite.config.ts: the dev-server proxy\<close>

text \<open>
  \<^verbatim>\<open>
  proxy: {
    '/api': { target: 'http://localhost:8000', changeOrigin: true,
              rewrite: (path) => path.replace(/^\/api/, '') },
    '/temp_audio': { target: 'http://localhost:8000', changeOrigin: true },
    '/temp_video': { target: 'http://localhost:8000', changeOrigin: true }
  }
  \<close>
\<close>

record proxy_rule =
  target :: jsstring
  changeOrigin :: bool
  rewrite :: "(jsstring \<Rightarrow> jsstring option) option"

definition rewrite_api :: "(jschar \<Rightarrow> jschar) \<Rightarrow> jsstring \<Rightarrow> jsstring option" where
  "rewrite_api canon path =
     (case RegExp (ascii ''^'' @ [backslash] @ ascii ''/api'') [] of
        None \<Rightarrow> None
      | Some re \<Rightarrow> replace canon re [] path)"

definition proxy :: "(jschar \<Rightarrow> jschar) \<Rightarrow> (jsstring \<times> proxy_rule) list" where
  "proxy canon =
     [(ascii ''/api'',
         \<lparr>target = ascii ''http://localhost:8000'', changeOrigin = True,
          rewrite = Some (rewrite_api canon)\<rparr>),
      (ascii ''/temp_audio'',
         \<lparr>target = ascii ''http://localhost:8000'', changeOrigin = True, rewrite = None\<rparr>),
      (ascii ''/temp_video'',
         \<lparr>target = ascii ''http://localhost:8000'', changeOrigin = True, rewrite = None\<rparr>)]"

text \<open>
  What the dev server does with the table: the first entry whose key the request path
  starts with decides; the request goes to its target, its path rewritten when the
  entry has a \<^verbatim>\<open>rewrite\<close>. \<open>None\<close>: the request is not proxied.
\<close>

definition forward :: "(jsstring \<times> proxy_rule) list \<Rightarrow> jsstring \<Rightarrow> (jsstring \<times> jsstring option) option" where
  "forward table url =
     (case find (\<lambda>(context, opts). prefix context url) table of
        None \<Rightarrow> None
      | Some (context, opts) \<Rightarrow>
          Some (target opts, case rewrite opts of None \<Rightarrow> Some url | Some f \<Rightarrow> f url))"

section \<open>Data of the HTTP interface\<close>

record clip_request =
  season :: int
  episode :: int
  start_time :: jsstring
  end_time :: jsstring

text \<open>A search result carries the four fields of a clip request and six more.\<close>

record result = clip_request +
  filename :: jsstring
  dialogue_index :: int
  chinese_text :: jsstring
  english_text :: jsstring
  context_before :: jsstring
  context_after :: jsstring

record search_response =
  data_query :: jsstring
  data_total :: int
  data_results :: "result list"

record clip_response =
  success :: bool
  message :: "jsstring option"

record audio_response = clip_response +
  audio_url :: jsstring

record video_response = clip_response +
  video_url :: jsstring

text \<open>What a handler does to the world, in order: the requests it sends, the alerts
  it raises, the lines it logs.\<close>

datatype effect =
    Get jsstring jsstring
  | Post jsstring clip_request
  | Alert jsstring
  | ConsoleError jsstring js_error

fun is_request :: "effect \<Rightarrow> bool" where
  "is_request (Get url q) = True"
| "is_request (Post url body) = True"
| "is_request e = False"

fun is_alert :: "effect \<Rightarrow> bool" where
  "is_alert (Alert m) = True"
| "is_alert e = False"

text \<open>\<^verbatim>\<open>a || b\<close> on a string that may be absent: \<open>b\<close> when \<open>a\<close> is absent or
  empty.\<close>

fun or_else :: "jsstring option \<Rightarrow> jsstring \<Rightarrow> jsstring" where
  "or_else None b = b"
| "or_else (Some a) b = (if a = [] then b else a)"

text \<open>\<^verbatim>\<open>String.prototype.trim\<close>: the white space and line terminators of the
  language, removed at both ends.\<close>

definition white_space :: jsstring where
  "white_space =
     [0x0009, 0x000A, 0x000B, 0x000C, 0x000D, 0x0020, 0x00A0, 0x1680,
      0x2000, 0x2001, 0x2002, 0x2003, 0x2004, 0x2005, 0x2006, 0x2007, 0x2008, 0x2009, 0x200A,
      0x2028, 0x2029, 0x202F, 0x205F, 0x3000, 0xFEFF]"

definition trim :: "jsstring \<Rightarrow> jsstring" where
  "trim s =
     rev (dropWhile (\<lambda>c. c \<in> set white_space) (rev (dropWhile (\<lambda>c. c \<in> set white_space) s)))"

section \<open>App.vue: performSearch\<close>

record stats_record =
  total_files :: int
  total_dialogues :: int

record app_state =
  query :: jsstring
  results :: "result list"
  loading :: bool
  stats :: stats_record

text \<open>
  \<^verbatim>\<open>
  const performSearch = async () => {
    if (!query.value.trim()) {
      results.value = []
      return
    }
    loading.value = true
    try {
      const response = await api.get(`/search`, { params: { q: query.value } })
      results.value = response.data.results
    } catch (error) {
      console.error('...', error)
      results.value = []
    } finally {
      loading.value = false
    }
  }
  \<close>
  \<open>get\<close> is the answer of the API to a GET (its URL under the base URL, the \<open>q\<close>
  parameter): a response, or the error axios throws. The logged text is the source's
  literal, in code units.
\<close>

definition search_failed :: jsstring where
  "search_failed = [0x641C, 0x7D22, 0x5931, 0x8D25, 0x003A]"

definition performSearch ::
  "(jsstring \<Rightarrow> jsstring \<Rightarrow> js_error + search_response) \<Rightarrow> app_state \<Rightarrow> app_state \<times> effect list" where
  "performSearch get st =
     (if trim (query st) = [] then (st\<lparr>results := []\<rparr>, [])
      else
        let st1 = st\<lparr>loading := True\<rparr>;
            request = Get (ascii ''/search'') (query st1);
            (st2, fx) =
              (case get (ascii ''/search'') (query st1) of
                 Inr response \<Rightarrow> (st1\<lparr>results := data_results response\<rparr>, [])
               | Inl error \<Rightarrow> (st1\<lparr>results := []\<rparr>, [ConsoleError search_failed error]))
        in (st2\<lparr>loading := False\<rparr>, request # fx))"

section \<open>ResultItem.vue: generateAudio and generateVideo\<close>

record item_state =
  audioUrl :: jsstring
  generating :: bool
  videoUrl :: jsstring
  generatingVideo :: bool

text \<open>
  \<^verbatim>\<open>
  const generateAudio = async () => {
    generating.value = true
    try {
      const response = await axios.post('/api/generate_audio', {
        season: props.result.season, episode: props.result.episode,
        start_time: props.result.start_time, end_time: props.result.end_time
      })
      if (response.data.success) {
        audioUrl.value = response.data.audio_url
      } else {
        alert(response.data.message || '...')
      }
    } catch (error) {
      console.error('...', error)
      alert('...')
    } finally {
      generating.value = false
    }
  }
  \<close>
  and generateVideo likewise, on \<^verbatim>\<open>/api/generate_video\<close>, \<^verbatim>\<open>videoUrl\<close> and
  \<^verbatim>\<open>generatingVideo\<close>. The three texts of each are the source's literals, in code
  units: the fallback of the alert, the logged text, the alert of the catch branch.
\<close>

definition audio_failed :: jsstring where
  "audio_failed = [0x751F, 0x6210, 0x97F3, 0x9891, 0x5931, 0x8D25]"

definition audio_failed_log :: jsstring where
  "audio_failed_log = audio_failed @ ascii '':''"

definition audio_failed_retry :: jsstring where
  "audio_failed_retry = audio_failed @ [0xFF0C, 0x8BF7, 0x7A0D, 0x540E, 0x91CD, 0x8BD5]"

definition video_failed :: jsstring where
  "video_failed = [0x751F, 0x6210, 0x89C6, 0x9891, 0x5931, 0x8D25]"

definition video_failed_log :: jsstring where
  "video_failed_log = video_failed @ ascii '':''"

definition video_failed_retry :: jsstring where
  "video_failed_retry = video_failed @ [0xFF0C, 0x8BF7, 0x7A0D, 0x540E, 0x91CD, 0x8BD5]"

definition generateAudio ::
  "(jsstring \<Rightarrow> clip_request \<Rightarrow> js_error + audio_response) \<Rightarrow> result \<Rightarrow> item_state
   \<Rightarrow> item_state \<times> effect list" where
  "generateAudio post result st =
     (let st1 = st\<lparr>generating := True\<rparr>;
          body = \<lparr>season = season result, episode = episode result,
                  start_time = start_time result, end_time = end_time result\<rparr>;
          (st2, fx) =
            (case post (ascii ''/api/generate_audio'') body of
               Inr response \<Rightarrow>
                 if success response then (st1\<lparr>audioUrl := audio_url response\<rparr>, [])
                 else (st1, [Alert (or_else (message response) audio_failed)])
             | Inl error \<Rightarrow> (st1, [ConsoleError audio_failed_log error, Alert audio_failed_retry]))
      in (st2\<lparr>generating := False\<rparr>, Post (ascii ''/api/generate_audio'') body # fx))"

definition generateVideo ::
  "(jsstring \<Rightarrow> clip_request \<Rightarrow> js_error + video_response) \<Rightarrow> result \<Rightarrow> item_state
   \<Rightarrow> item_state \<times> effect list" where
  "generateVideo post result st =
     (let st1 = st\<lparr>generatingVideo := True\<rparr>;
          body = \<lparr>season = season result, episode = episode result,
                  start_time = start_time result, end_time = end_time result\<rparr>;
          (st2, fx) =
            (case post (ascii ''/api/generate_video'') body of
               Inr response \<Rightarrow>
                 if success response then (st1\<lparr>videoUrl := video_url response\<rparr>, [])
                 else (st1, [Alert (or_else (message response) video_failed)])
             | Inl error \<Rightarrow> (st1, [ConsoleError video_failed_log error, Alert video_failed_retry]))
      in (st2\<lparr>generatingVideo := False\<rparr>, Post (ascii ''/api/generate_video'') body # fx))"

section \<open>The search endpoint\<close>

definition contains_ci :: "(jschar \<Rightarrow> jschar) \<Rightarrow> jsstring \<Rightarrow> jsstring \<Rightarrow> bool" where
  "contains_ci canon q t = sublist (map canon q) (map canon t)"

text \<open>Modelled from the spec: the \<^verbatim>\<open>GET /search\<close> endpoint of the backend, whose
  code (backend/main.py) is not among the sources. By the specification its results
  are entries of the corpus whose \<^verbatim>\<open>chinese_text\<close> or \<^verbatim>\<open>english_text\<close> contains a
  case-insensitive match of the query, at most \<open>limit\<close> of them.\<close>

definition search_endpoint ::
  "(jschar \<Rightarrow> jschar) \<Rightarrow> result list \<Rightarrow> nat \<Rightarrow> jsstring \<Rightarrow> search_response" where
  "search_endpoint canon corpus limit q =
     (let found = take limit (filter (\<lambda>e. contains_ci canon q (chinese_text e)
                                          \<or> contains_ci canon q (english_text e)) corpus)
      in \<lparr>data_query = q, data_total = int (length found), data_results = found\<rparr>)"

subsection \<open>Inputs of the examples\<close>

definition failing_get :: "jsstring \<Rightarrow> jsstring \<Rightarrow> js_error + search_response" where
  "failing_get url q = Inl AxiosError"

definition failing_post_audio :: "jsstring \<Rightarrow> clip_request \<Rightarrow> js_error + audio_response" where
  "failing_post_audio url body = Inl AxiosError"

definition failing_post_video :: "jsstring \<Rightarrow> clip_request \<Rightarrow> js_error + video_response" where
  "failing_post_video url body = Inl AxiosError"

definition refusing_post_audio :: "jsstring \<Rightarrow> clip_request \<Rightarrow> js_error + audio_response" where
  "refusing_post_audio url body = Inr \<lparr>success = False, message = None, audio_url = []\<rparr>"

definition refusing_post_video :: "jsstring \<Rightarrow> clip_request \<Rightarrow> js_error + video_response" where
  "refusing_post_video url body =
     Inr \<lparr>success = False, message = Some (ascii ''no such episode''), video_url = []\<rparr>"

definition serving_post_audio :: "jsstring \<Rightarrow> clip_request \<Rightarrow> js_error + audio_response" where
  "serving_post_audio url body =
     Inr \<lparr>success = True, message = None, audio_url = ascii ''/temp_audio/a.mp3''\<rparr>"

definition serving_post_video :: "jsstring \<Rightarrow> clip_request \<Rightarrow> js_error + video_response" where
  "serving_post_video url body =
     Inr \<lparr>success = True, message = None, video_url = ascii ''/temp_video/a.mp4''\<rparr>"

definition sample_result :: result where
  "sample_result =
     \<lparr>season = 5, episode = 1, start_time = ascii ''0:03:11.39'', end_time = ascii ''0:03:14.36'',
      filename = ascii ''S05E01'', dialogue_index = 42,
      chinese_text = [0x8C22, 0x5C14, 0x987F], english_text = ascii ''Sheldon said'',
      context_before = [], context_after = []\<rparr>"

definition other_result :: result where
  "other_result =
     \<lparr>season = 1, episode = 2, start_time = ascii ''0:00:01.00'', end_time = ascii ''0:00:02.00'',
      filename = ascii ''S01E02'', dialogue_index = 1,
      chinese_text = [0x4F60, 0x597D], english_text = ascii ''Hello there'',
      context_before = [], context_after = []\<rparr>"

definition serving_get :: "jsstring \<Rightarrow> jsstring \<Rightarrow> js_error + search_response" where
  "serving_get url q = Inr (search_endpoint canonicalize_ascii [sample_result, other_result] 50 q)"

definition idle_app :: "jsstring \<Rightarrow> app_state" where
  "idle_app q = \<lparr>query = q, results = [], loading = False,
                 stats = \<lparr>total_files = 0, total_dialogues = 0\<rparr>\<rparr>"

definition idle_item :: item_state where
  "idle_item = \<lparr>audioUrl = [], generating = False, videoUrl = [], generatingVideo = False\<rparr>"

section \<open>Properties of split\<close>

lemma split_not_Nil: "split sep s \<noteq> []"
  by (induction s) (auto split: list.splits)

lemma split_no_sep: "sep \<notin> set s \<Longrightarrow> split sep s = [s]"
  by (induction s) auto

lemma split_prefix: "sep \<notin> set a \<Longrightarrow> split sep (a @ sep # b) = a # split sep b"
  by (induction a) auto

lemma split_first: "index (split sep s) 0 = Some (takeWhile (\<lambda>c. c \<noteq> sep) s)"
proof (induction s)
  case Nil
  show ?case by simp
next
  case (Cons c cs)
  show ?case
  proof (cases "c = sep")
    case True
    then show ?thesis by simp
  next
    case False
    obtain p ps where ps: "split sep cs = p # ps"
      using split_not_Nil [of sep cs] by (cases "split sep cs") auto
    with Cons False show ?thesis by simp
  qed
qed

lemma length_split: "length (split sep s) = Suc (count_list s sep)"
proof (induction s)
  case Nil
  show ?case by simp
next
  case (Cons c cs)
  obtain p ps where ps: "split sep cs = p # ps"
    using split_not_Nil [of sep cs] by (cases "split sep cs") auto
  with Cons show ?case by auto
qed

lemma index_None_iff: "index xs i = None \<longleftrightarrow> length xs \<le> i"
  by (induction xs i rule: index.induct) auto

lemma index_Some_nth: "i < length xs \<Longrightarrow> index xs i = Some (xs ! i)"
  by (induction xs i rule: index.induct) auto

lemma index_Cons_numeral [simp]: "index (x # xs) (numeral n) = index xs (pred_numeral n)"
  by (simp add: numeral_eq_Suc)

section \<open>formatTime on a timestamp\<close>

text \<open>
  C2. On a string made of an hours field, \<open>:\<close>, a minutes field, \<open>:\<close>, a seconds
  field, \<open>.\<close> and a fraction (the three fields free of \<open>:\<close>, the seconds field free
  of \<open>.\<close>), formatTime returns the minutes field, \<open>:\<close> and the seconds field.
\<close>

theorem formatTime_timestamp:
  assumes "colon \<notin> set h" and "colon \<notin> set m" and "colon \<notin> set s" and "dot \<notin> set s"
  shows "formatTime (h @ ascii '':'' @ m @ ascii '':'' @ s @ ascii ''.'' @ ms)
         = Inr (m @ ascii '':'' @ s)"
proof -
  let ?rest = "s @ dot # ms"
  have parts: "split colon (h @ colon # m @ colon # ?rest) = h # m # split colon ?rest"
    using assms by (simp add: split_prefix)
  obtain p2 ps where p2: "split colon ?rest = p2 # ps"
    using split_not_Nil [of colon ?rest] by (cases "split colon ?rest") auto
  have "index (split colon ?rest) 0 = Some (takeWhile (\<lambda>c. c \<noteq> colon) ?rest)"
    by (rule split_first)
  with p2 have p2_eq: "p2 = takeWhile (\<lambda>c. c \<noteq> colon) ?rest" by simp
  have "colon \<noteq> dot" by (simp add: colon_def dot_def)
  with assms have "p2 = s @ dot # takeWhile (\<lambda>c. c \<noteq> colon) ms"
    unfolding p2_eq by (simp add: takeWhile_append)
  then have "index (split dot p2) 0 = Some s"
    using assms by (simp add: split_first takeWhile_append)
  with parts p2 show ?thesis
    by (simp add: formatTime_def Let_def ascii_def colon_def dot_def)
qed

theorem formatTime_timestamp_witness:
  "colon \<notin> set (ascii ''0'') \<and> colon \<notin> set (ascii ''03'') \<and> colon \<notin> set (ascii ''11'')
   \<and> dot \<notin> set (ascii ''11'')
   \<and> formatTime (ascii ''0:03:11.39'') = Inr (ascii ''03:11'')"
  using formatTime_timestamp [of "ascii ''0''" "ascii ''03''" "ascii ''11''" "ascii ''39''"]
  by (simp add: ascii_def colon_def dot_def)

text \<open>
  C5. formatTime returns its input unchanged when the input holds no \<open>:\<close>, fails
  with a TypeError (the read of \<^verbatim>\<open>parts[2].split\<close> on \<^verbatim>\<open>undefined\<close>) when it
  holds exactly one, and returns a string when it holds two or more.
\<close>

theorem formatTime_colons:
  "(count_list s colon = 0 \<longrightarrow> formatTime s = Inr s)
   \<and> (count_list s colon = 1 \<longrightarrow> formatTime s = Inl TypeError)
   \<and> (2 \<le> count_list s colon \<longrightarrow> (\<exists>r. formatTime s = Inr r))"
proof (intro conjI impI)
  assume "count_list s colon = 0"
  then have "length (split colon s) = 1" by (simp add: length_split)
  then show "formatTime s = Inr s" by (simp add: formatTime_def)
next
  assume "count_list s colon = 1"
  then have len: "length (split colon s) = 2" by (simp add: length_split)
  then have "index (split colon s) 2 = None" by (simp add: index_None_iff)
  with len show "formatTime s = Inl TypeError" by (simp add: formatTime_def)
next
  assume "2 \<le> count_list s colon"
  then have len: "3 \<le> length (split colon s)" by (simp add: length_split)
  then have "index (split colon s) 2 = Some (split colon s ! 2)"
    by (simp add: index_Some_nth)
  with len show "\<exists>r. formatTime s = Inr r" by (simp add: formatTime_def Let_def)
qed

theorem formatTime_colons_witness:
  "count_list (ascii ''0311'') colon = 0 \<and> formatTime (ascii ''0311'') = Inr (ascii ''0311'')
   \<and> count_list (ascii ''03:11'') colon = 1 \<and> formatTime (ascii ''03:11'') = Inl TypeError
   \<and> 2 \<le> count_list (ascii ''0:03:11'') colon \<and> (\<exists>r. formatTime (ascii ''0:03:11'') = Inr r)"
  using formatTime_colons [of "ascii ''0311''"] formatTime_colons [of "ascii ''03:11''"]
    formatTime_colons [of "ascii ''0:03:11''"]
  by (simp add: ascii_def colon_def)

section \<open>The query is read as a literal\<close>

declare scan.simps [simp del]

lemma syntax_members:
  "backslash \<in> set syntax_characters" "0x5E \<in> set syntax_characters"
  "0x28 \<in> set syntax_characters" "0x29 \<in> set syntax_characters"
  by (simp_all add: syntax_characters_def ascii_def backslash_def)

lemma tokens_escapeRegExp:
  "tokens (escapeRegExp q @ rest) = map_option ((@) (map Chr q)) (tokens rest)"
proof (induction q)
  case Nil
  show ?case by (simp add: escapeRegExp_def option.map_ident)
next
  case (Cons c q)
  have step: "tokens (escapeRegExp (c # q) @ rest) = map_option ((#) (Chr c)) (tokens (escapeRegExp q @ rest))"
  proof (cases "c \<in> set syntax_characters")
    case True
    then show ?thesis by (simp add: escapeRegExp_def)
  next
    case False
    with syntax_members have "c \<noteq> backslash" "c \<noteq> 0x5E" "c \<noteq> 0x28" "c \<noteq> 0x29" by auto
    with False show ?thesis by (simp add: escapeRegExp_def)
  qed
  show ?case unfolding step Cons.IH by (simp add: option.map_comp comp_def)
qed

lemma literal_Chr: "literal (map Chr q) = Some q"
  by (induction q) auto

lemma RegExp_escaped:
  "RegExp (ascii ''('' @ escapeRegExp q @ ascii '')'') (ascii ''gi'')
   = Some \<lparr>anchored = False, atoms = q, grouped = True, global = True, ignoreCase = True\<rparr>"
proof -
  have "tokens (escapeRegExp q @ [0x29]) = Some (map Chr q @ [Close])"
    using tokens_escapeRegExp [of q "[0x29]"] by (simp add: backslash_def)
  then have "tokens (ascii ''('' @ escapeRegExp q @ ascii '')'') = Some (Open # map Chr q @ [Close])"
    by (simp add: ascii_def backslash_def)
  then show ?thesis
    by (simp add: RegExp_def ascii_def literal_Chr)
qed

lemma pieces_highlight:
  \<open>pieces True (ascii ''<span class="highlight">$1</span>'')
   = Some (map Text (ascii ''<span class="highlight">'') @ Matched # map Text (ascii ''</span>''))\<close>
  by (simp add: ascii_def)

lemma expand_Text: "expand m (map Text u @ ps) = u @ expand m ps"
  by (induction u) auto

lemma expand_highlight:
  \<open>expand m (map Text (ascii ''<span class="highlight">'') @ Matched # map Text (ascii ''</span>'')) = wrapped m\<close>
  using expand_Text [of m _ "[]"] by (simp add: expand_Text wrapped_def)

lemma matches_here_iff:
  "matches_here cmp q s \<longleftrightarrow> length q \<le> length s \<and> map cmp (take (length q) s) = map cmp q"
  by (induction cmp q s rule: matches_here.induct) auto

lemma matches_here_occurs: "matches_here canon q s \<longleftrightarrow> occurs_at canon q s 0"
  by (simp add: matches_here_iff occurs_at_def ci_equal_def)


section \<open>The replace loop cuts the subject into segments\<close>

lemma scan_Nil: "atoms re \<noteq> [] \<Longrightarrow> scan cmp re sub b [] = []"
  by (cases "atoms re") (simp_all add: scan.simps)

lemma scan_hit:
  assumes "\<not> anchored re" and "global re" and "atoms re \<noteq> []"
    and "matches_here cmp (atoms re) s"
  shows "scan cmp re sub b s
         = sub (take (length (atoms re)) s) @ scan cmp re sub False (drop (length (atoms re)) s)"
  using assms by (subst scan.simps) simp

lemma scan_miss:
  assumes "\<not> matches_here cmp (atoms re) (c # cs)"
  shows "scan cmp re sub b (c # cs) = c # scan cmp re sub False cs"
  using assms by (subst scan.simps) simp

lemma scan_segments:
  assumes re: "\<not> anchored re" "global re" "atoms re \<noteq> []"
  shows "\<exists>segs. scan cmp re sub b s = concat (map (\<lambda>(w, u). if w then sub u else u) segs)
           \<and> unmarked segs = s
           \<and> (\<forall>(w, u) \<in> set segs. w \<longrightarrow> ci_equal cmp u (atoms re))
           \<and> (\<forall>pre u post. segs = pre @ (False, u) # post \<longrightarrow>
                 (\<forall>i<length u. \<not> occurs_at cmp (atoms re) (u @ unmarked post) i))"
proof (induction "length s" arbitrary: s b rule: less_induct)
  case less
  let ?q = "atoms re"
  let ?good = "\<lambda>b s segs. scan cmp re sub b s = concat (map (\<lambda>(w, u). if w then sub u else u) segs)
           \<and> unmarked segs = s
           \<and> (\<forall>(w, u) \<in> set segs. w \<longrightarrow> ci_equal cmp u ?q)
           \<and> (\<forall>pre u post. segs = pre @ (False, u) # post \<longrightarrow>
                 (\<forall>i<length u. \<not> occurs_at cmp ?q (u @ unmarked post) i))"
  show ?case
  proof (cases s)
    case Nil
    with re have "?good b s []" by (simp add: scan_Nil unmarked_def)
    then show ?thesis by blast
  next
    case (Cons c cs)
    show ?thesis
    proof (cases "matches_here cmp ?q s")
      case True
      let ?n = "length ?q"
      from True re Cons have "length (drop ?n s) < length s" by (cases ?q) auto
      from less [OF this, of False] obtain segs where segs: "?good False (drop ?n s) segs" by blast
      let ?segs = "(True, take ?n s) # segs"
      have 1: "scan cmp re sub b s = concat (map (\<lambda>(w, u). if w then sub u else u) ?segs)"
        using segs scan_hit [OF re True, of sub b] by simp
      have 2: "unmarked ?segs = s" using segs by (simp add: unmarked_def)
      have 3: "\<forall>(w, u) \<in> set ?segs. w \<longrightarrow> ci_equal cmp u ?q"
        using segs True by (auto simp: matches_here_iff ci_equal_def)
      have 4: "\<forall>pre u post. ?segs = pre @ (False, u) # post \<longrightarrow>
                 (\<forall>i<length u. \<not> occurs_at cmp ?q (u @ unmarked post) i)"
      proof (intro allI impI)
        fix pre u post i
        assume eq: "?segs = pre @ (False, u) # post" and i: "i < length u"
        then obtain pre' where "segs = pre' @ (False, u) # post" by (cases pre) auto
        with segs i show "\<not> occurs_at cmp ?q (u @ unmarked post) i" by blast
      qed
      from 1 2 3 4 have "?good b s ?segs" by blast
      then show ?thesis by blast
    next
      case False
      from Cons have "length cs < length s" by simp
      from less [OF this, of False] obtain segs where segs: "?good False cs segs" by blast
      let ?segs = "(False, [c]) # segs"
      have 1: "scan cmp re sub b s = concat (map (\<lambda>(w, u). if w then sub u else u) ?segs)"
        using segs scan_miss [of cmp re c cs sub b] False Cons by simp
      have 2: "unmarked ?segs = s" using segs Cons by (simp add: unmarked_def)
      have 3: "\<forall>(w, u) \<in> set ?segs. w \<longrightarrow> ci_equal cmp u ?q"
        using segs by auto
      have 4: "\<forall>pre u post. ?segs = pre @ (False, u) # post \<longrightarrow>
                 (\<forall>i<length u. \<not> occurs_at cmp ?q (u @ unmarked post) i)"
      proof (intro allI impI)
        fix pre u post i
        assume eq: "?segs = pre @ (False, u) # post" and i: "i < length u"
        show "\<not> occurs_at cmp ?q (u @ unmarked post) i"
        proof (cases pre)
          case Nil
          with eq have "u = [c]" "post = segs" by auto
          with i segs Cons False show ?thesis by (simp add: matches_here_occurs)
        next
          case (Cons x pre')
          with eq have "segs = pre' @ (False, u) # post" by simp
          with segs i show ?thesis by blast
        qed
      qed
      from 1 2 3 4 have "?good b s ?segs" by blast
      then show ?thesis by blast
    qed
  qed
qed

lemma highlightText_scan:
  assumes "text \<noteq> []" and "q \<noteq> []"
  shows "highlightText canon text q
         = Some (scan canon \<lparr>anchored = False, atoms = q, grouped = True, global = True, ignoreCase = True\<rparr>
                   wrapped True text)"
proof -
  have \<open>(\<lambda>m. expand m (map Text (ascii ''<span class="highlight">'') @ Matched # map Text (ascii ''</span>''))) = wrapped\<close>
    by (rule ext) (rule expand_highlight)
  with assms show ?thesis
    by (simp add: highlightText_def RegExp_escaped replace_def pieces_highlight)
qed

lemma highlightText_segments:
  assumes "q \<noteq> []"
  shows "\<exists>segs. highlightText canon text q = Some (marked segs)
           \<and> unmarked segs = text
           \<and> (\<forall>(w, u) \<in> set segs. w \<longrightarrow> ci_equal canon u q)
           \<and> (\<forall>pre u post. segs = pre @ (False, u) # post \<longrightarrow>
                 (\<forall>i<length u. \<not> occurs_at canon q (u @ unmarked post) i))"
proof (cases "text = []")
  case True
  then have "highlightText canon text q = Some (marked []) \<and> unmarked [] = text"
    by (simp add: highlightText_def marked_def unmarked_def)
  then show ?thesis by (intro exI [where x = "[]"]) simp
next
  case False
  let ?re = "\<lparr>anchored = False, atoms = q, grouped = True, global = True, ignoreCase = True\<rparr>"
  have hl: "highlightText canon text q = Some (scan canon ?re wrapped True text)"
    using False assms by (rule highlightText_scan)
  from assms have "\<not> anchored ?re" "global ?re" "atoms ?re \<noteq> []" by simp_all
  from scan_segments [OF this, of canon wrapped True "text"]
  show ?thesis by (simp add: hl marked_def)
qed

section \<open>highlightText wraps the occurrences of the query\<close>

text \<open>
  C1 (as amended). For every text and every non-empty query \<open>q\<close>, highlightText
  returns the text cut into consecutive segments, some of them wrapped in the marker
  \<^verbatim>\<open><span class="highlight">...</span>\<close>: the segments are the text itself, unchanged
  and in order; every wrapped segment is a case-insensitive occurrence of \<open>q\<close>, read
  as a literal; and no occurrence of \<open>q\<close> begins at a code unit left outside the
  markers. So an occurrence is wrapped unless it overlaps an occurrence wrapped
  further left.
\<close>

theorem highlightText_wraps_scan:
  assumes "q \<noteq> []"
  shows "\<exists>segs. highlightText canon text q = Some (marked segs)
           \<and> unmarked segs = text
           \<and> (\<forall>(w, u) \<in> set segs. w \<longrightarrow> ci_equal canon u q)
           \<and> (\<forall>pre u post. segs = pre @ (False, u) # post \<longrightarrow>
                 (\<forall>i<length u. \<not> occurs_at canon q (u @ unmarked post) i))"
  using assms by (rule highlightText_segments)

theorem highlightText_wraps_scan_witness:
  "ascii ''aa'' \<noteq> []
   \<and> (\<exists>segs. highlightText canonicalize_ascii (ascii ''aAa'') (ascii ''aa'') = Some (marked segs)
           \<and> unmarked segs = ascii ''aAa''
           \<and> (\<forall>(w, u) \<in> set segs. w \<longrightarrow> ci_equal canonicalize_ascii u (ascii ''aa''))
           \<and> (\<forall>pre u post. segs = pre @ (False, u) # post \<longrightarrow>
                 (\<forall>i<length u. \<not> occurs_at canonicalize_ascii (ascii ''aa'') (u @ unmarked post) i)))"
  using highlightText_wraps_scan [of "ascii ''aa''" canonicalize_ascii "ascii ''aAa''"]
  by (simp add: ascii_def)

text \<open>
  C1 as stated fails where occurrences overlap: \<open>aa\<close> occurs in \<open>aAa\<close> at offsets 0
  and 1, the result wraps \<open>aA\<close> only, and \<open>Aa\<close> wrapped is nowhere in it.
\<close>

theorem highlightText_overlap_counterexample:
  \<open>occurs_at canonicalize_ascii (ascii ''aa'') (ascii ''aAa'') 0
   \<and> occurs_at canonicalize_ascii (ascii ''aa'') (ascii ''aAa'') 1
   \<and> highlightText canonicalize_ascii (ascii ''aAa'') (ascii ''aa'')
       = Some (ascii ''<span class="highlight">aA</span>a'')
   \<and> \<not> sublist (wrapped (ascii ''Aa'')) (ascii ''<span class="highlight">aA</span>a'')\<close>
  by (simp add: occurs_at_def ci_equal_def canonicalize_ascii_def highlightText_scan
      scan.simps wrapped_def ascii_def sublist_code)

text \<open>
  C9. highlightText returns the text when the query is empty and the empty string
  when the text is empty; for a non-empty query the result is the text with markers
  put around some of its segments, so that taking the markers put in away again
  (\<open>unmarked\<close>) gives the text back, code unit for code unit.
\<close>

theorem highlightText_erase:
  "highlightText canon text [] = Some text
   \<and> highlightText canon [] q = Some []
   \<and> (q \<noteq> [] \<longrightarrow>
        (\<exists>segs. highlightText canon text q = Some (marked segs) \<and> unmarked segs = text))"
proof (intro conjI impI)
  assume "q \<noteq> []"
  from highlightText_segments [OF this, of canon "text"]
  show "\<exists>segs. highlightText canon text q = Some (marked segs) \<and> unmarked segs = text"
    by blast
qed (simp_all add: highlightText_def)

theorem highlightText_erase_witness:
  \<open>highlightText canonicalize_ascii (ascii ''Hello'') [] = Some (ascii ''Hello'')
   \<and> highlightText canonicalize_ascii [] (ascii ''l'') = Some []
   \<and> ascii ''l'' \<noteq> []
   \<and> (\<exists>segs. highlightText canonicalize_ascii (ascii ''Hello'') (ascii ''l'') = Some (marked segs)
         \<and> unmarked segs = ascii ''Hello'')\<close>
  using highlightText_erase [of canonicalize_ascii "ascii ''Hello''" "ascii ''l''"]
  by (simp add: ascii_def)

section \<open>The proxy table\<close>

lemma RegExp_api:
  "RegExp (ascii ''^'' @ [backslash] @ ascii ''/api'') []
   = Some \<lparr>anchored = True, atoms = ascii ''/api'', grouped = False, global = False, ignoreCase = False\<rparr>"
  by (simp add: RegExp_def ascii_def backslash_def syntax_characters_def)

lemma scan_anchored_later: "anchored re \<Longrightarrow> scan cmp re sub False s = s"
  by (induction s) (simp_all add: scan.simps)

lemma scan_anchored_start:
  assumes "anchored re" and "\<not> global re"
  shows "scan cmp re sub True s
         = (if matches_here cmp (atoms re) s
            then sub (take (length (atoms re)) s) @ drop (length (atoms re)) s else s)"
  using assms by (subst scan.simps) (simp add: scan_anchored_later split: list.splits)

lemma matches_here_prefix: "matches_here (\<lambda>c. c) p s \<longleftrightarrow> prefix p s"
  by (induction "\<lambda>c::jschar. c" p s rule: matches_here.induct) auto

lemma rewrite_api_eq:
  "rewrite_api canon path = Some (if prefix (ascii ''/api'') path then drop (length (ascii ''/api'')) path else path)"
proof -
  let ?re = "\<lparr>anchored = True, atoms = ascii ''/api'', grouped = False, global = False, ignoreCase = False\<rparr>"
  have "rewrite_api canon path = replace canon ?re [] path"
    unfolding rewrite_api_def RegExp_api by simp
  also have "\<dots> = Some (scan (\<lambda>c. c) ?re (\<lambda>m. []) True path)"
    by (simp add: replace_def)
  also have "scan (\<lambda>c. c) ?re (\<lambda>m. []) True path
             = (if prefix (ascii ''/api'') path then drop (length (ascii ''/api'')) path else path)"
    by (simp add: scan_anchored_start matches_here_prefix)
  finally show ?thesis .
qed

text \<open>
  C7. The proxy table has the three keys \<open>/api\<close>, \<open>/temp_audio\<close> and
  \<open>/temp_video\<close>, each with the target \<open>http://localhost:8000\<close>, and only the first
  with a rewrite. The rewrite removes a leading \<open>/api\<close> and leaves any other path as
  it is. So a request is forwarded exactly when its path starts with one of the three
  keys: under \<open>/api\<close> without the prefix, under the other two unchanged.
\<close>

theorem proxy_forwards:
  "map fst (proxy canon) = [ascii ''/api'', ascii ''/temp_audio'', ascii ''/temp_video'']
   \<and> (\<forall>(context, opts) \<in> set (proxy canon). target opts = ascii ''http://localhost:8000'')
   \<and> map (\<lambda>(context, opts). rewrite opts = None) (proxy canon) = [False, True, True]
   \<and> (prefix (ascii ''/api'') path \<longrightarrow> rewrite_api canon path = Some (drop (length (ascii ''/api'')) path))
   \<and> (\<not> prefix (ascii ''/api'') path \<longrightarrow> rewrite_api canon path = Some path)
   \<and> forward (proxy canon) path =
       (if prefix (ascii ''/api'') path
        then Some (ascii ''http://localhost:8000'', Some (drop (length (ascii ''/api'')) path))
        else if prefix (ascii ''/temp_audio'') path \<or> prefix (ascii ''/temp_video'') path
        then Some (ascii ''http://localhost:8000'', Some path)
        else None)"
  by (simp add: proxy_def forward_def rewrite_api_eq)

theorem proxy_forwards_witness:
  "prefix (ascii ''/api'') (ascii ''/api/search'')
   \<and> rewrite_api canonicalize_ascii (ascii ''/api/search'') = Some (ascii ''/search'')
   \<and> \<not> prefix (ascii ''/api'') (ascii ''/temp_audio/a.mp3'')
   \<and> rewrite_api canonicalize_ascii (ascii ''/temp_audio/a.mp3'') = Some (ascii ''/temp_audio/a.mp3'')
   \<and> forward (proxy canonicalize_ascii) (ascii ''/api/search'')
       = Some (ascii ''http://localhost:8000'', Some (ascii ''/search''))
   \<and> forward (proxy canonicalize_ascii) (ascii ''/temp_audio/a.mp3'')
       = Some (ascii ''http://localhost:8000'', Some (ascii ''/temp_audio/a.mp3''))
   \<and> forward (proxy canonicalize_ascii) (ascii ''/index.html'') = None"
  using proxy_forwards [of canonicalize_ascii "ascii ''/api/search''"]
    proxy_forwards [of canonicalize_ascii "ascii ''/temp_audio/a.mp3''"]
    proxy_forwards [of canonicalize_ascii "ascii ''/index.html''"]
  by (simp add: ascii_def)

section \<open>The handlers, case by case\<close>

lemma trim_Nil_iff: "trim s = [] \<longleftrightarrow> (\<forall>c \<in> set s. c \<in> set white_space)"
proof -
  let ?P = "\<lambda>c. c \<in> set white_space"
  have "trim s = [] \<longleftrightarrow> (\<forall>c \<in> set (dropWhile ?P s). ?P c)"
    by (simp add: trim_def dropWhile_eq_Nil_conv)
  also have "\<dots> \<longleftrightarrow> dropWhile ?P s = []"
  proof
    assume all: "\<forall>c \<in> set (dropWhile ?P s). ?P c"
    show "dropWhile ?P s = []"
    proof (rule ccontr)
      assume ne: "dropWhile ?P s \<noteq> []"
      then have "\<not> ?P (hd (dropWhile ?P s))" by (rule hd_dropWhile)
      moreover from ne have "hd (dropWhile ?P s) \<in> set (dropWhile ?P s)" by simp
      ultimately show False using all by blast
    qed
  next
    assume "dropWhile ?P s = []"
    then show "\<forall>c \<in> set (dropWhile ?P s). ?P c" by (simp only: list.set ball_empty)
  qed
  also have "\<dots> \<longleftrightarrow> (\<forall>c \<in> set s. ?P c)" by (simp add: dropWhile_eq_Nil_conv)
  finally show ?thesis .
qed

lemma performSearch_blank:
  "trim (query st) = [] \<Longrightarrow> performSearch get st = (st\<lparr>results := []\<rparr>, [])"
  by (simp add: performSearch_def)

lemma performSearch_response:
  assumes "trim (query st) \<noteq> []" and "get (ascii ''/search'') (query st) = Inr response"
  shows "performSearch get st
         = (st\<lparr>loading := False, results := data_results response\<rparr>,
            [Get (ascii ''/search'') (query st)])"
  using assms by (simp add: performSearch_def)

lemma performSearch_error:
  assumes "trim (query st) \<noteq> []" and "get (ascii ''/search'') (query st) = Inl error"
  shows "performSearch get st
         = (st\<lparr>loading := False, results := []\<rparr>,
            [Get (ascii ''/search'') (query st), ConsoleError search_failed error])"
  using assms by (simp add: performSearch_def)

lemma generateAudio_success:
  assumes "post (ascii ''/api/generate_audio'')
             \<lparr>season = season r, episode = episode r, start_time = start_time r, end_time = end_time r\<rparr>
           = Inr response" and "success response"
  shows "generateAudio post r st
         = (st\<lparr>generating := False, audioUrl := audio_url response\<rparr>,
            [Post (ascii ''/api/generate_audio'')
               \<lparr>season = season r, episode = episode r, start_time = start_time r, end_time = end_time r\<rparr>])"
  using assms by (simp add: generateAudio_def)

lemma generateAudio_refused:
  assumes "post (ascii ''/api/generate_audio'')
             \<lparr>season = season r, episode = episode r, start_time = start_time r, end_time = end_time r\<rparr>
           = Inr response" and "\<not> success response"
  shows "generateAudio post r st
         = (st\<lparr>generating := False\<rparr>,
            [Post (ascii ''/api/generate_audio'')
               \<lparr>season = season r, episode = episode r, start_time = start_time r, end_time = end_time r\<rparr>,
             Alert (or_else (message response) audio_failed)])"
  using assms by (simp add: generateAudio_def)

lemma generateAudio_error:
  assumes "post (ascii ''/api/generate_audio'')
             \<lparr>season = season r, episode = episode r, start_time = start_time r, end_time = end_time r\<rparr>
           = Inl error"
  shows "generateAudio post r st
         = (st\<lparr>generating := False\<rparr>,
            [Post (ascii ''/api/generate_audio'')
               \<lparr>season = season r, episode = episode r, start_time = start_time r, end_time = end_time r\<rparr>,
             ConsoleError audio_failed_log error, Alert audio_failed_retry])"
  using assms by (simp add: generateAudio_def)

lemma generateVideo_success:
  assumes "post (ascii ''/api/generate_video'')
             \<lparr>season = season r, episode = episode r, start_time = start_time r, end_time = end_time r\<rparr>
           = Inr response" and "success response"
  shows "generateVideo post r st
         = (st\<lparr>generatingVideo := False, videoUrl := video_url response\<rparr>,
            [Post (ascii ''/api/generate_video'')
               \<lparr>season = season r, episode = episode r, start_time = start_time r, end_time = end_time r\<rparr>])"
  using assms by (simp add: generateVideo_def)

lemma generateVideo_refused:
  assumes "post (ascii ''/api/generate_video'')
             \<lparr>season = season r, episode = episode r, start_time = start_time r, end_time = end_time r\<rparr>
           = Inr response" and "\<not> success response"
  shows "generateVideo post r st
         = (st\<lparr>generatingVideo := False\<rparr>,
            [Post (ascii ''/api/generate_video'')
               \<lparr>season = season r, episode = episode r, start_time = start_time r, end_time = end_time r\<rparr>,
             Alert (or_else (message response) video_failed)])"
  using assms by (simp add: generateVideo_def)

lemma generateVideo_error:
  assumes "post (ascii ''/api/generate_video'')
             \<lparr>season = season r, episode = episode r, start_time = start_time r, end_time = end_time r\<rparr>
           = Inl error"
  shows "generateVideo post r st
         = (st\<lparr>generatingVideo := False\<rparr>,
            [Post (ascii ''/api/generate_video'')
               \<lparr>season = season r, episode = episode r, start_time = start_time r, end_time = end_time r\<rparr>,
             ConsoleError video_failed_log error, Alert video_failed_retry])"
  using assms by (simp add: generateVideo_def)

section \<open>performSearch\<close>

text \<open>
  C3. With the search endpoint as the specification describes it, performSearch leaves
  \<open>results\<close> either empty or equal to the endpoint's results, every one of which
  has a case-insensitive match of the query in its \<open>chinese_text\<close> or
  \<open>english_text\<close>; \<open>results\<close> is empty when the query is empty or white space
  only, and when the request throws.
\<close>

theorem performSearch_results:
  assumes "\<forall>r. get (ascii ''/search'') (query st) = Inr r
               \<longrightarrow> r = search_endpoint canon corpus limit (query st)"
  shows "(results (fst (performSearch get st)) = []
          \<or> (results (fst (performSearch get st))
                = data_results (search_endpoint canon corpus limit (query st))
              \<and> (\<forall>e \<in> set (results (fst (performSearch get st))).
                    contains_ci canon (query st) (chinese_text e)
                    \<or> contains_ci canon (query st) (english_text e))))
         \<and> ((\<forall>c \<in> set (query st). c \<in> set white_space)
              \<longrightarrow> results (fst (performSearch get st)) = [])
         \<and> ((\<exists>error. get (ascii ''/search'') (query st) = Inl error)
              \<longrightarrow> results (fst (performSearch get st)) = [])"
proof (cases "trim (query st) = []")
  case True
  then have "results (fst (performSearch get st)) = []"
    by (simp add: performSearch_blank)
  then show ?thesis by simp
next
  case False
  then have nonblank: "\<not> (\<forall>c \<in> set (query st). c \<in> set white_space)"
    by (simp add: trim_Nil_iff)
  show ?thesis
  proof (cases "get (ascii ''/search'') (query st)")
    case (Inl error)
    with False have "results (fst (performSearch get st)) = []"
      by (simp add: performSearch_error)
    then show ?thesis by simp
  next
    case (Inr r)
    with assms have r: "r = search_endpoint canon corpus limit (query st)" by blast
    from False Inr have res: "results (fst (performSearch get st)) = data_results r"
      by (simp add: performSearch_response)
    have "\<forall>e \<in> set (data_results r).
            contains_ci canon (query st) (chinese_text e) \<or> contains_ci canon (query st) (english_text e)"
      unfolding r by (auto simp: search_endpoint_def Let_def dest: in_set_takeD)
    with res r nonblank Inr show ?thesis by auto
  qed
qed

theorem performSearch_results_witness:
  "serving_get (ascii ''/search'') (ascii ''hello'')
     = Inr (search_endpoint canonicalize_ascii [sample_result, other_result] 50 (ascii ''hello''))
   \<and> results (fst (performSearch serving_get (idle_app (ascii ''hello'')))) = [other_result]
   \<and> contains_ci canonicalize_ascii (ascii ''hello'') (english_text other_result)"
proof -
  have h: "\<forall>r. serving_get (ascii ''/search'') (query (idle_app (ascii ''hello''))) = Inr r
        \<longrightarrow> r = search_endpoint canonicalize_ascii [sample_result, other_result] 50
                  (query (idle_app (ascii ''hello'')))"
    by (simp add: serving_get_def)
  have found: "data_results (search_endpoint canonicalize_ascii [sample_result, other_result] 50
                 (ascii ''hello'')) = [other_result]"
    by (simp add: search_endpoint_def contains_ci_def sublist_code canonicalize_ascii_def
        sample_result_def other_result_def ascii_def)
  have nonblank: "trim (ascii ''hello'') \<noteq> []"
    by (simp add: trim_def white_space_def ascii_def)
  have "results (fst (performSearch serving_get (idle_app (ascii ''hello'')))) = [other_result]"
    using nonblank found by (simp add: performSearch_def idle_app_def serving_get_def)
  moreover have "contains_ci canonicalize_ascii (ascii ''hello'') (english_text other_result)"
    by (simp add: contains_ci_def sublist_code canonicalize_ascii_def other_result_def ascii_def)
  ultimately show ?thesis
    using performSearch_results [of serving_get "idle_app (ascii ''hello'')" canonicalize_ascii
        "[sample_result, other_result]" 50, OF h]
    by (simp add: serving_get_def)
qed

section \<open>Alerts, requests and busy flags\<close>

lemma performSearch_no_alert: "filter is_alert (snd (performSearch get st)) = []"
  by (cases "get (ascii ''/search'') (query st)") (simp_all add: performSearch_def)

text \<open>
  C4 (as amended). generateAudio and generateVideo raise one alert when the response
  says \<open>success: false\<close> (its message, or the fallback text when the message is
  absent or empty) and one when the request throws. performSearch never raises an
  alert: when its request throws it logs the error to the console and empties
  \<open>results\<close>.
\<close>

theorem failures_surface:
  "(\<forall>response.
      post_audio (ascii ''/api/generate_audio'')
        \<lparr>season = season r, episode = episode r, start_time = start_time r, end_time = end_time r\<rparr>
        = Inr response \<and> \<not> success response
      \<longrightarrow> filter is_alert (snd (generateAudio post_audio r it))
            = [Alert (or_else (message response) audio_failed)])
   \<and> (\<forall>error.
      post_audio (ascii ''/api/generate_audio'')
        \<lparr>season = season r, episode = episode r, start_time = start_time r, end_time = end_time r\<rparr>
        = Inl error
      \<longrightarrow> filter is_alert (snd (generateAudio post_audio r it)) = [Alert audio_failed_retry])
   \<and> (\<forall>response.
      post_video (ascii ''/api/generate_video'')
        \<lparr>season = season r, episode = episode r, start_time = start_time r, end_time = end_time r\<rparr>
        = Inr response \<and> \<not> success response
      \<longrightarrow> filter is_alert (snd (generateVideo post_video r it))
            = [Alert (or_else (message response) video_failed)])
   \<and> (\<forall>error.
      post_video (ascii ''/api/generate_video'')
        \<lparr>season = season r, episode = episode r, start_time = start_time r, end_time = end_time r\<rparr>
        = Inl error
      \<longrightarrow> filter is_alert (snd (generateVideo post_video r it)) = [Alert video_failed_retry])
   \<and> filter is_alert (snd (performSearch get st)) = []
   \<and> (\<forall>error.
      trim (query st) \<noteq> [] \<and> get (ascii ''/search'') (query st) = Inl error
      \<longrightarrow> snd (performSearch get st)
            = [Get (ascii ''/search'') (query st), ConsoleError search_failed error]
          \<and> results (fst (performSearch get st)) = [])"
  by (simp add: generateAudio_refused generateAudio_error generateVideo_refused
      generateVideo_error performSearch_no_alert performSearch_error)

theorem failures_surface_witness:
  "filter is_alert (snd (generateAudio refusing_post_audio sample_result idle_item))
     = [Alert audio_failed]
   \<and> filter is_alert (snd (generateAudio failing_post_audio sample_result idle_item))
     = [Alert audio_failed_retry]
   \<and> filter is_alert (snd (generateVideo refusing_post_video sample_result idle_item))
     = [Alert (ascii ''no such episode'')]
   \<and> filter is_alert (snd (generateVideo failing_post_video sample_result idle_item))
     = [Alert video_failed_retry]
   \<and> trim (query (idle_app (ascii ''sheldon''))) \<noteq> []
   \<and> snd (performSearch failing_get (idle_app (ascii ''sheldon'')))
     = [Get (ascii ''/search'') (ascii ''sheldon''), ConsoleError search_failed AxiosError]
   \<and> results (fst (performSearch failing_get (idle_app (ascii ''sheldon'')))) = []"
proof -
  have nonblank: "trim (query (idle_app (ascii ''sheldon''))) \<noteq> []"
    by (simp add: idle_app_def trim_def white_space_def ascii_def)
  show ?thesis
    using nonblank
      failures_surface [of refusing_post_audio sample_result idle_item refusing_post_video
        failing_get "idle_app (ascii ''sheldon'')"]
      failures_surface [of failing_post_audio sample_result idle_item failing_post_video
        failing_get "idle_app (ascii ''sheldon'')"]
    by (simp add: refusing_post_audio_def refusing_post_video_def failing_post_audio_def
        failing_post_video_def failing_get_def idle_app_def sample_result_def ascii_def)
qed

text \<open>
  C4 as stated fails for performSearch: on a query that is not blank and a request
  that throws, the handler sends the request and logs the error, and raises no alert.
\<close>

theorem performSearch_failure_counterexample:
  "trim (query (idle_app (ascii ''sheldon''))) \<noteq> []
   \<and> failing_get (ascii ''/search'') (query (idle_app (ascii ''sheldon''))) = Inl AxiosError
   \<and> snd (performSearch failing_get (idle_app (ascii ''sheldon'')))
     = [Get (ascii ''/search'') (ascii ''sheldon''), ConsoleError search_failed AxiosError]
   \<and> filter is_alert (snd (performSearch failing_get (idle_app (ascii ''sheldon'')))) = []"
proof -
  have nonblank: "trim (query (idle_app (ascii ''sheldon''))) \<noteq> []"
    by (simp add: idle_app_def trim_def white_space_def ascii_def)
  have failed: "failing_get (ascii ''/search'') (query (idle_app (ascii ''sheldon''))) = Inl AxiosError"
    by (simp add: failing_get_def)
  from performSearch_error [of "idle_app (ascii ''sheldon'')" failing_get AxiosError, OF nonblank failed]
    nonblank failed show ?thesis
    by (simp add: idle_app_def)
qed

text \<open>
  C6. generateAudio sends one request, a POST to \<open>/api/generate_audio\<close> whose body
  holds the season, episode, start time and end time of the result, and on a response
  with \<open>success\<close> true sets \<open>audioUrl\<close> to the response's \<open>audio_url\<close>;
  generateVideo does the same with \<open>/api/generate_video\<close>, \<open>videoUrl\<close> and
  \<open>video_url\<close>.
\<close>

theorem generate_posts:
  "filter is_request (snd (generateAudio post_audio r it))
     = [Post (ascii ''/api/generate_audio'')
          \<lparr>season = season r, episode = episode r, start_time = start_time r, end_time = end_time r\<rparr>]
   \<and> (\<forall>response.
        post_audio (ascii ''/api/generate_audio'')
          \<lparr>season = season r, episode = episode r, start_time = start_time r, end_time = end_time r\<rparr>
          = Inr response \<and> success response
        \<longrightarrow> audioUrl (fst (generateAudio post_audio r it)) = audio_url response)
   \<and> filter is_request (snd (generateVideo post_video r it))
     = [Post (ascii ''/api/generate_video'')
          \<lparr>season = season r, episode = episode r, start_time = start_time r, end_time = end_time r\<rparr>]
   \<and> (\<forall>response.
        post_video (ascii ''/api/generate_video'')
          \<lparr>season = season r, episode = episode r, start_time = start_time r, end_time = end_time r\<rparr>
          = Inr response \<and> success response
        \<longrightarrow> videoUrl (fst (generateVideo post_video r it)) = video_url response)"
proof -
  let ?body = "\<lparr>season = season r, episode = episode r, start_time = start_time r, end_time = end_time r\<rparr>"
  have a: "filter is_request (snd (generateAudio post_audio r it))
           = [Post (ascii ''/api/generate_audio'') ?body]"
    by (cases "post_audio (ascii ''/api/generate_audio'') ?body")
      (simp_all add: generateAudio_def Let_def)
  have v: "filter is_request (snd (generateVideo post_video r it))
           = [Post (ascii ''/api/generate_video'') ?body]"
    by (cases "post_video (ascii ''/api/generate_video'') ?body")
      (simp_all add: generateVideo_def Let_def)
  show ?thesis
    unfolding a v by (simp add: generateAudio_success generateVideo_success)
qed

theorem generate_posts_witness:
  "filter is_request (snd (generateAudio serving_post_audio sample_result idle_item))
     = [Post (ascii ''/api/generate_audio'')
          \<lparr>season = 5, episode = 1, start_time = ascii ''0:03:11.39'', end_time = ascii ''0:03:14.36''\<rparr>]
   \<and> audioUrl (fst (generateAudio serving_post_audio sample_result idle_item)) = ascii ''/temp_audio/a.mp3''
   \<and> filter is_request (snd (generateVideo serving_post_video sample_result idle_item))
     = [Post (ascii ''/api/generate_video'')
          \<lparr>season = 5, episode = 1, start_time = ascii ''0:03:11.39'', end_time = ascii ''0:03:14.36''\<rparr>]
   \<and> videoUrl (fst (generateVideo serving_post_video sample_result idle_item)) = ascii ''/temp_video/a.mp4''"
  using generate_posts [of serving_post_audio sample_result idle_item serving_post_video]
  by (simp add: serving_post_audio_def serving_post_video_def sample_result_def)

text \<open>
  C8. Whatever the API answers (a response, a refusal or an error), one call of
  performSearch sends at most one request, and one call of generateAudio or of
  generateVideo sends exactly one.
\<close>

theorem single_request:
  "length (filter is_request (snd (performSearch get st))) \<le> 1
   \<and> length (filter is_request (snd (generateAudio post_audio r it))) = 1
   \<and> length (filter is_request (snd (generateVideo post_video r it))) = 1"
proof -
  let ?body = "\<lparr>season = season r, episode = episode r, start_time = start_time r, end_time = end_time r\<rparr>"
  have "length (filter is_request (snd (performSearch get st))) \<le> 1"
    by (cases "get (ascii ''/search'') (query st)") (simp_all add: performSearch_def)
  moreover have "length (filter is_request (snd (generateAudio post_audio r it))) = 1"
    by (cases "post_audio (ascii ''/api/generate_audio'') ?body")
      (simp_all add: generateAudio_def Let_def)
  moreover have "length (filter is_request (snd (generateVideo post_video r it))) = 1"
    by (cases "post_video (ascii ''/api/generate_video'') ?body")
      (simp_all add: generateVideo_def Let_def)
  ultimately show ?thesis by simp
qed

theorem single_request_witness:
  "length (filter is_request (snd (performSearch failing_get (idle_app (ascii ''sheldon''))))) \<le> 1
   \<and> length (filter is_request (snd (generateAudio failing_post_audio sample_result idle_item))) = 1
   \<and> length (filter is_request (snd (generateVideo refusing_post_video sample_result idle_item))) = 1"
  by (rule single_request)

text \<open>
  C10. After performSearch on a query that is not blank, \<open>loading\<close> is false,
  whatever the API answered (on a blank query the handler returns early and leaves
  \<open>loading\<close> as it was); after generateAudio \<open>generating\<close> is false and after
  generateVideo \<open>generatingVideo\<close> is false, whatever the API answered.
\<close>

theorem busy_flags_reset:
  "(trim (query st) \<noteq> [] \<longrightarrow> \<not> loading (fst (performSearch get st)))
   \<and> (trim (query st) = [] \<longrightarrow> loading (fst (performSearch get st)) = loading st)
   \<and> \<not> generating (fst (generateAudio post_audio r it))
   \<and> \<not> generatingVideo (fst (generateVideo post_video r it))"
proof -
  let ?body = "\<lparr>season = season r, episode = episode r, start_time = start_time r, end_time = end_time r\<rparr>"
  have "trim (query st) \<noteq> [] \<longrightarrow> \<not> loading (fst (performSearch get st))"
    by (cases "get (ascii ''/search'') (query st)") (simp_all add: performSearch_def)
  moreover have "trim (query st) = [] \<longrightarrow> loading (fst (performSearch get st)) = loading st"
    by (simp add: performSearch_blank)
  moreover have "\<not> generating (fst (generateAudio post_audio r it))"
    by (cases "post_audio (ascii ''/api/generate_audio'') ?body")
      (simp_all add: generateAudio_def Let_def)
  moreover have "\<not> generatingVideo (fst (generateVideo post_video r it))"
    by (cases "post_video (ascii ''/api/generate_video'') ?body")
      (simp_all add: generateVideo_def Let_def)
  ultimately show ?thesis by simp
qed

theorem busy_flags_reset_witness:
  "trim (query (idle_app (ascii ''sheldon''))) \<noteq> []
   \<and> \<not> loading (fst (performSearch failing_get (idle_app (ascii ''sheldon''))))
   \<and> \<not> loading (fst (performSearch serving_get (idle_app (ascii ''sheldon''))))
   \<and> \<not> generating (fst (generateAudio failing_post_audio sample_result idle_item))
   \<and> \<not> generating (fst (generateAudio refusing_post_audio sample_result idle_item))
   \<and> \<not> generating (fst (generateAudio serving_post_audio sample_result idle_item))
   \<and> \<not> generatingVideo (fst (generateVideo failing_post_video sample_result idle_item))
   \<and> \<not> generatingVideo (fst (generateVideo refusing_post_video sample_result idle_item))
   \<and> \<not> generatingVideo (fst (generateVideo serving_post_video sample_result idle_item))"
proof -
  have nonblank: "trim (query (idle_app (ascii ''sheldon''))) \<noteq> []"
    by (simp add: idle_app_def trim_def white_space_def ascii_def)
  show ?thesis
    using nonblank
      busy_flags_reset [of "idle_app (ascii ''sheldon'')" failing_get failing_post_audio
        sample_result idle_item failing_post_video]
      busy_flags_reset [of "idle_app (ascii ''sheldon'')" serving_get refusing_post_audio
        sample_result idle_item refusing_post_video]
      busy_flags_reset [of "idle_app (ascii ''sheldon'')" serving_get serving_post_audio
        sample_result idle_item serving_post_video]
    by simp
qed

end
